theory Spec2Isabelle
  imports Main "HOL-Library.Word"
begin

unbundle bit_operations_syntax

section \<open>keystatus.c: data\<close>

text \<open>
  A C \<open>int\<close> or \<open>unsigned int\<close> is a \<open>32 word\<close>, an \<open>unsigned char\<close> an
  \<open>8 word\<close>, a \<open>long\<close> a \<open>64 word\<close>. A \<open>const char *\<close> is a \<open>string option\<close>,
  \<open>None\<close> for \<open>NULL\<close>.
\<close>

type_synonym c_int = "32 word"
type_synonym c_uint = "32 word"
type_synonym c_uchar = "8 word"
type_synonym c_long = "64 word"

text \<open>
  \<open>struct ModifierEntry\<close> (lines 37-41). The field \<open>value\<close> is written
  \<open>mod_value\<close>.
\<close>

record ModifierEntry =
  mod_value :: c_int
  latched :: "string option"
  locked :: "string option"

text \<open>The table \<open>mods[]\<close> (lines 43-49), the sentinel included.\<close>

definition mods :: "ModifierEntry list" where
  "mods =
    [\<lparr>mod_value = 1, latched = Some ''shift'', locked = Some ''SHIFT''\<rparr>,
     \<lparr>mod_value = push_bit 2 1, latched = Some ''ctrl'', locked = Some ''CTRL''\<rparr>,
     \<lparr>mod_value = push_bit 3 1, latched = Some ''alt'', locked = Some ''ALT''\<rparr>,
     \<lparr>mod_value = push_bit 6 1, latched = Some ''super'', locked = Some ''SUPER''\<rparr>,
     \<lparr>mod_value = 0, latched = None, locked = None\<rparr>]"

text \<open>
  The four fields of Xlib's \<open>XkbStateRec\<close> that the program reads (\<open>mods\<close>,
  \<open>base_mods\<close>, \<open>latched_mods\<close>, \<open>locked_mods\<close>, each an \<open>unsigned char\<close>),
  prefixed \<open>st_\<close>.
\<close>

record XkbStateRec =
  st_mods :: c_uchar
  st_base_mods :: c_uchar
  st_latched_mods :: c_uchar
  st_locked_mods :: c_uchar

text \<open>
  The members of the union \<open>XkbEvent\<close> that the program reads: \<open>e.type\<close>,
  \<open>e.any.xkb_type\<close> (both \<open>int\<close>) and \<open>e.state.mods\<close>, \<open>e.state.base_mods\<close>,
  \<open>e.state.latched_mods\<close>, \<open>e.state.locked_mods\<close> (each an \<open>unsigned int\<close>),
  prefixed \<open>ev_\<close>.
\<close>

record XkbEvent =
  ev_type :: c_int
  ev_xkb_type :: c_int
  ev_mods :: c_uint
  ev_base_mods :: c_uint
  ev_latched_mods :: c_uint
  ev_locked_mods :: c_uint

text \<open>
  Constants of the X11 headers (\<open>X.h\<close>, \<open>extensions/XKB.h\<close>): \<open>Success\<close> is 0,
  the event sub-types \<open>XkbStateNotify\<close>, \<open>XkbControlsNotify\<close> and
  \<open>XkbAccessXNotify\<close> are 2, 3 and 10, and the control masks are \<open>(1L << 3)\<close>
  and \<open>(1L << 6)\<close>.
\<close>

definition Success :: c_int where
  "Success = 0"

definition XkbStateNotify :: c_int where
  "XkbStateNotify = 2"

definition XkbControlsNotify :: c_int where
  "XkbControlsNotify = 3"

definition XkbAccessXNotify :: c_int where
  "XkbAccessXNotify = 10"

definition XkbStickyKeysMask :: c_long where
  "XkbStickyKeysMask = push_bit 3 1"

definition XkbAccessXKeysMask :: c_long where
  "XkbAccessXKeysMask = push_bit 6 1"

section \<open>The X server and the connection\<close>

text \<open>
  What the server answers to the two queries of the main loop. \<open>XkbGetState\<close>
  returns \<open>state_status\<close> and leaves \<open>state_reply\<close> in the caller's struct (when
  the call fails, that is whatever the uninitialised local holds).
  \<open>XkbGetControls\<close> returns \<open>ctrls_status\<close> and on success stores
  \<open>enabled_ctrls\<close> in \<open>xkb->ctrls\<close>.
\<close>

record xkb_server =
  state_status :: c_int
  state_reply :: XkbStateRec
  ctrls_status :: c_int
  enabled_ctrls :: c_uint

text \<open>
  The connection: the server as it is now, the events already on the queue, and the
  bursts that arrive later. A burst is the server's answers from then on and the
  events that reach the queue together; it is delivered when the program blocks in
  \<open>XNextEvent\<close> on an empty queue. When nothing is left the program blocks for ever.
\<close>

record Display =
  server :: xkb_server
  queue :: "XkbEvent list"
  later :: "(xkb_server \<times> XkbEvent list) list"

definition XkbGetState :: "Display \<Rightarrow> c_int \<times> XkbStateRec" where
  "XkbGetState d = (state_status (server d), state_reply (server d))"

definition XkbGetControls :: "Display \<Rightarrow> c_int \<times> c_uint" where
  "XkbGetControls d = (ctrls_status (server d), enabled_ctrls (server d))"

definition XPending :: "Display \<Rightarrow> nat" where
  "XPending d = length (queue d)"

text \<open>\<open>XNextEvent\<close>: the head of the queue; \<open>None\<close> when it blocks for ever.\<close>

function XNextEvent :: "Display \<Rightarrow> (XkbEvent \<times> Display) option" where
  "XNextEvent d =
    (case queue d of
       e # q \<Rightarrow> Some (e, d\<lparr>queue := q\<rparr>)
     | [] \<Rightarrow>
        (case later d of
           [] \<Rightarrow> None
         | (s, evs) # l \<Rightarrow> XNextEvent (d\<lparr>server := s, queue := evs, later := l\<rparr>)))"
  by pat_completeness auto
termination
  by (relation "measure (\<lambda>d. length (later d))") auto

declare XNextEvent.simps [simp del]

definition events_left :: "Display \<Rightarrow> nat" where
  "events_left d = length (queue d) + sum_list (map (\<lambda>b. length (snd b)) (later d))"

lemma XNextEvent_events_left:
  "XNextEvent d = Some (e, d') \<Longrightarrow> events_left d = Suc (events_left d')"
proof (induction d rule: XNextEvent.induct)
  case (1 d)
  show ?case
  proof (cases "queue d")
    case (Cons a q)
    with "1.prems" show ?thesis
      by (auto simp: XNextEvent.simps [of d] events_left_def)
  next
    case Nil
    note q = Nil
    show ?thesis
    proof (cases "later d")
      case Nil
      with q "1.prems" show ?thesis
        by (simp add: XNextEvent.simps [of d])
    next
      case (Cons b l)
      obtain s evs where b: "b = (s, evs)" by (cases b)
      from q Cons b "1.prems"
      have "XNextEvent (d\<lparr>server := s, queue := evs, later := l\<rparr>) = Some (e, d')"
        by (simp add: XNextEvent.simps [of d])
      from "1.IH" [OF q Cons b [symmetric] this] q Cons b show ?thesis
        by (simp add: events_left_def)
    qed
  qed
qed

section \<open>The program\<close>

text \<open>
  What a run leaves behind: the text written to standard output and to standard error,
  and how it ends. \<open>Blocked\<close> is the program waiting in \<open>XNextEvent\<close> for an
  event that never comes; \<open>Undefined\<close> is undefined behaviour of the C program
  (reading past the table, or a \<open>NULL\<close> word given to \<open>printf\<close>).
\<close>

datatype outcome = Exit int | Blocked | Undefined

record run =
  stdout :: string
  stderr :: string
  result :: outcome

text \<open>
  The environment of \<open>main\<close> before the loop: \<open>getenv("DISPLAY")\<close>, the result of
  \<open>XkbOpenDisplay\<close> (\<open>None\<close> for \<open>NULL\<close>, else the connection and the event type
  stored in \<open>event_rtrn\<close>), whether \<open>XkbGetKeyboard\<close> returns a description, and
  whether \<open>XkbSelectEvents\<close> returns true.
\<close>

record environment =
  getenv_DISPLAY :: "string option"
  XkbOpenDisplay :: "(Display \<times> c_int) option"
  XkbGetKeyboard :: bool
  XkbSelectEvents :: bool

text \<open>\<open>printf\<close>'s \<open>%s\<close> (glibc prints \<open>(null)\<close> for \<open>NULL\<close>) and \<open>%d\<close>.\<close>

definition fmt_s :: "string option \<Rightarrow> string" where
  "fmt_s a = (case a of None \<Rightarrow> ''(null)'' | Some s \<Rightarrow> s)"

fun digits :: "nat \<Rightarrow> string" where
  "digits n =
    (if n < 10 then [''0123456789'' ! n]
     else digits (n div 10) @ [''0123456789'' ! (n mod 10)])"

declare digits.simps [simp del]

definition fmt_d :: "c_int \<Rightarrow> string" where
  "fmt_d a = (if sint a < 0 then CHR ''-'' # digits (nat (- sint a)) else digits (nat (sint a)))"

text \<open>\<open>open_default_display\<close> (lines 51-62).\<close>

definition open_default_display :: "environment \<Rightarrow> run + Display \<times> c_int" where
  "open_default_display env =
    (case XkbOpenDisplay env of
       None \<Rightarrow>
         Inl \<lparr>stdout = [],
              stderr = ''Failed to initialize Xkb extension for display ''
                @ fmt_s (getenv_DISPLAY env) @ [CHR 0x0A],
              result = Exit 1\<rparr>
     | Some (display, event_rtrn) \<Rightarrow> Inr (display, event_rtrn))"

text \<open>
  \<open>print_word\<close> (lines 64-71). The state is the text written to standard output by
  this pass of the main loop and the flag \<open>*first\<close>.
\<close>

definition print_word :: "string \<Rightarrow> string \<times> bool \<Rightarrow> string \<times> bool" where
  "print_word word s =
    (case s of (out, first) \<Rightarrow>
       if \<not> first then (out @ [CHR 0x20] @ word, first)
       else (out @ word, False))"

text \<open>
  The loop over the table (lines 93-99), from the entry \<open>mods[i]\<close> on. It ends at
  the first entry whose \<open>value\<close> is 0.
\<close>

fun mods_loop :: "XkbStateRec \<Rightarrow> ModifierEntry list \<Rightarrow> string \<times> bool \<Rightarrow> (string \<times> bool) option" where
  "mods_loop state [] s = None"
| "mods_loop state (m # ms) s =
    (if mod_value m = 0 then Some s
     else if ucast (st_latched_mods state) AND mod_value m \<noteq> 0 then
       (case latched m of
          None \<Rightarrow> None
        | Some word \<Rightarrow> mods_loop state ms (print_word word s))
     else if ucast (st_locked_mods state) AND mod_value m \<noteq> 0 then
       (case locked m of
          None \<Rightarrow> None
        | Some word \<Rightarrow> mods_loop state ms (print_word word s))
     else mods_loop state ms s)"

text \<open>
  One pass of the main loop up to \<open>fflush\<close> (lines 89-112): either the run ends
  (\<open>Inl\<close>), or the state snapshot and the text written (\<open>Inr\<close>). The status that
  \<open>XkbGetState\<close> returns is dropped, as in the source.
\<close>

definition print_status :: "Display \<Rightarrow> run + XkbStateRec \<times> string" where
  "print_status d =
    (case XkbGetState d of (_, state) \<Rightarrow>
       (case mods_loop state mods ([], True) of
          None \<Rightarrow> Inl \<lparr>stdout = [], stderr = [], result = Undefined\<rparr>
        | Some s1 \<Rightarrow>
           (case XkbGetControls d of (status, ctrls) \<Rightarrow>
              if status \<noteq> Success then
                Inl \<lparr>stdout = fst s1,
                     stderr = ''XkbGetControls() returned '' @ fmt_d status,
                     result = Exit 1\<rparr>
              else
                let s2 = (if ucast ctrls AND XkbStickyKeysMask \<noteq> 0
                          then print_word ''sticky'' s1 else s1);
                    s3 = (if ucast ctrls AND XkbAccessXKeysMask \<noteq> 0
                          then print_word ''accessx'' s2 else s2)
                in Inr (state, fst s3 @ [CHR 0x0A]))))"

text \<open>The drain (lines 129-131).\<close>

function drain :: "Display \<Rightarrow> Display option" where
  "drain d =
    (if XPending d \<noteq> 0 then
       (case XNextEvent d of
          None \<Rightarrow> None
        | Some (e, d') \<Rightarrow> drain d')
     else Some d)"
  by pat_completeness auto
termination
  by (relation "measure events_left") (auto simp: XNextEvent_events_left)

declare drain.simps [simp del]

text \<open>
  The wait for events (lines 115-134): \<open>None\<close> when it blocks for ever, else the
  connection when it breaks out of the loop. The comparisons promote the snapshot's
  \<open>unsigned char\<close> fields to the event's \<open>unsigned int\<close>.
\<close>

function wait_loop :: "c_int \<Rightarrow> XkbStateRec \<Rightarrow> Display \<Rightarrow> Display option" where
  "wait_loop xkb_event_type state d =
    (case XNextEvent d of
       None \<Rightarrow> None
     | Some (e, d') \<Rightarrow>
        if ev_type e = xkb_event_type then
          if ev_xkb_type e = XkbStateNotify then
            if ev_mods e = ucast (st_mods state) \<and>
               ev_base_mods e = ucast (st_base_mods state) \<and>
               ev_latched_mods e = ucast (st_latched_mods state) \<and>
               ev_locked_mods e = ucast (st_locked_mods state)
            then wait_loop xkb_event_type state d'
            else drain d'
          else drain d'
        else wait_loop xkb_event_type state d')"
  by pat_completeness auto
termination
  by (relation "measure (\<lambda>(t, st, d). events_left d)") (auto simp: XNextEvent_events_left)

declare wait_loop.simps [simp del]

lemma XNextEvent_queue:
  "queue d = e # q \<Longrightarrow> XNextEvent d = Some (e, d\<lparr>queue := q\<rparr>)"
  by (simp add: XNextEvent.simps [of d])

lemma drain_queue: "drain d = Some (d\<lparr>queue := []\<rparr>)"
proof (induction "queue d" arbitrary: d)
  case Nil
  then show ?case
    by (simp add: drain.simps [of d] XPending_def)
next
  case (Cons e q)
  from Cons.hyps(2) have q: "queue d = e # q" by simp
  have "drain d = drain (d\<lparr>queue := q\<rparr>)"
    by (simp add: drain.simps [of d] XPending_def q XNextEvent_queue [OF q])
  also have "\<dots> = Some (d\<lparr>queue := q\<rparr>\<lparr>queue := []\<rparr>)"
    by (rule Cons.hyps(1)) simp
  finally show ?case by simp
qed

lemma wait_loop_events_left:
  "wait_loop t st d = Some d' \<Longrightarrow> events_left d' < events_left d"
proof (induction t st d rule: wait_loop.induct)
  case (1 t st d)
  from "1.prems" obtain e d1 where next_ev: "XNextEvent d = Some (e, d1)"
    by (cases "XNextEvent d") (auto simp: wait_loop.simps [of t st d])
  have less: "events_left d1 < events_left d"
    using XNextEvent_events_left [OF next_ev] by simp
  have drained: "events_left (d1\<lparr>queue := []\<rparr>) \<le> events_left d1"
    by (simp add: events_left_def)
  from "1.prems" next_ev
  consider "wait_loop t st d1 = Some d'" "ev_type e \<noteq> t"
    | "wait_loop t st d1 = Some d'" "ev_type e = t" "ev_xkb_type e = XkbStateNotify"
        "ev_mods e = ucast (st_mods st) \<and> ev_base_mods e = ucast (st_base_mods st) \<and>
         ev_latched_mods e = ucast (st_latched_mods st) \<and>
         ev_locked_mods e = ucast (st_locked_mods st)"
    | "drain d1 = Some d'"
    by (auto simp: wait_loop.simps [of t st d] split: if_splits)
  then show ?case
  proof cases
    case 1
    from "1.IH"(2) [OF next_ev refl 1(2) 1(1)] less show ?thesis by simp
  next
    case 2
    from "1.IH"(1) [OF next_ev refl 2(2) 2(3) 2(4) 2(1)] less show ?thesis by simp
  next
    case 3
    then have "d' = d1\<lparr>queue := []\<rparr>" by (simp add: drain_queue)
    with drained less show ?thesis by simp
  qed
qed

text \<open>
  The main loop (lines 88-135). \<open>out\<close> is what the passes before this one wrote to
  standard output.
\<close>

function main_loop :: "c_int \<Rightarrow> Display \<Rightarrow> string \<Rightarrow> run" where
  "main_loop xkb_event_type d out =
    (case print_status d of
       Inl r \<Rightarrow> r\<lparr>stdout := out @ stdout r\<rparr>
     | Inr (state, line) \<Rightarrow>
        (case wait_loop xkb_event_type state d of
           None \<Rightarrow> \<lparr>stdout = out @ line, stderr = [], result = Blocked\<rparr>
         | Some d' \<Rightarrow> main_loop xkb_event_type d' (out @ line)))"
  by pat_completeness auto
termination
  by (relation "measure (\<lambda>(t, d, out). events_left d)") (auto simp: wait_loop_events_left)

declare main_loop.simps [simp del]

text \<open>\<open>main\<close> (lines 73-139). \<open>argc\<close> and \<open>argv\<close> are not read.\<close>

definition main :: "environment \<Rightarrow> run" where
  "main env =
    (case open_default_display env of
       Inl r \<Rightarrow> r
     | Inr (display, xkb_event_type) \<Rightarrow>
        if \<not> XkbGetKeyboard env then
          \<lparr>stdout = [],
           stderr = ''XkbGetKeyboard() failed for display '' @ [CHR 0x27]
             @ fmt_s (getenv_DISPLAY env) @ [CHR 0x27, CHR 0x0A],
           result = Exit 1\<rparr>
        else if \<not> XkbSelectEvents env then
          \<lparr>stdout = [], stderr = ''XkbSelectEvents() failed'' @ [CHR 0x0A], result = Exit 1\<rparr>
        else main_loop xkb_event_type display [])"

section \<open>Specification\<close>

text \<open>
  The spec's words for the status line (sections 4.3 and 6), to compare the program
  with. An entry's bit is set in a mask when the mask and the entry's value share a
  bit; a control is enabled when its mask bit is set in the enabled controls.
\<close>

definition latched_set :: "XkbStateRec \<Rightarrow> ModifierEntry \<Rightarrow> bool" where
  "latched_set state m = (ucast (st_latched_mods state) AND mod_value m \<noteq> 0)"

definition locked_set :: "XkbStateRec \<Rightarrow> ModifierEntry \<Rightarrow> bool" where
  "locked_set state m = (ucast (st_locked_mods state) AND mod_value m \<noteq> 0)"

definition sticky_enabled :: "c_uint \<Rightarrow> bool" where
  "sticky_enabled ctrls = (ucast ctrls AND XkbStickyKeysMask \<noteq> 0)"

definition accessx_enabled :: "c_uint \<Rightarrow> bool" where
  "accessx_enabled ctrls = (ucast ctrls AND XkbAccessXKeysMask \<noteq> 0)"

text \<open>
  The words that apply: for each entry of the table before the sentinel, in table
  order, the latched word if the latched bit is set, else the locked word if the
  locked bit is set, else nothing; then \<open>sticky\<close>, then \<open>accessx\<close>.
\<close>

definition word_list :: "string option \<Rightarrow> string list" where
  "word_list a = (case a of None \<Rightarrow> [] | Some w \<Rightarrow> [w])"

definition entry_words :: "XkbStateRec \<Rightarrow> ModifierEntry \<Rightarrow> string list" where
  "entry_words state m =
    (if latched_set state m then word_list (latched m)
     else if locked_set state m then word_list (locked m)
     else [])"

definition table_entries :: "ModifierEntry list" where
  "table_entries = takeWhile (\<lambda>m. mod_value m \<noteq> 0) mods"

definition applicable_words :: "XkbStateRec \<Rightarrow> c_uint \<Rightarrow> string list" where
  "applicable_words state ctrls =
    concat (map (entry_words state) table_entries)
    @ (if sticky_enabled ctrls then [''sticky''] else [])
    @ (if accessx_enabled ctrls then [''accessx''] else [])"

text \<open>The words of the table, and what makes a word: not empty, no space, no newline.\<close>

definition modifier_words :: "string list" where
  "modifier_words = concat (map (\<lambda>m. word_list (latched m) @ word_list (locked m)) table_entries)"

definition plain_word :: "string \<Rightarrow> bool" where
  "plain_word w = (w \<noteq> [] \<and> CHR 0x20 \<notin> set w \<and> CHR 0x0A \<notin> set w)"

text \<open>Words joined by one space each: no space before the first or after the last.\<close>

definition join_words :: "string list \<Rightarrow> string" where
  "join_words ws = (case ws of [] \<Rightarrow> [] | w # ws' \<Rightarrow> w @ concat (map (\<lambda>v. CHR 0x20 # v) ws'))"

text \<open>
  Reading a line back: the text before the newline, cut at every space. An empty
  line has no word.
\<close>

fun split_fields :: "string \<Rightarrow> string list" where
  "split_fields [] = [[]]"
| "split_fields (c # cs) =
    (if c = CHR 0x20 then [] # split_fields cs
     else (c # hd (split_fields cs)) # tl (split_fields cs))"

definition line_words :: "string \<Rightarrow> string list" where
  "line_words line =
    (let body = takeWhile (\<lambda>c. c \<noteq> CHR 0x0A) line
     in if body = [] then [] else split_fields body)"

text \<open>\<open>print_word\<close> called for each word of a list in turn.\<close>

definition print_words :: "string list \<Rightarrow> string \<times> bool \<Rightarrow> string \<times> bool" where
  "print_words ws s = foldl (\<lambda>s w. print_word w s) s ws"

text \<open>
  The worked example of the spec: shift and alt latched, ctrl locked, sticky keys
  enabled, nothing queued.
\<close>

definition example_state :: XkbStateRec where
  "example_state =
    \<lparr>st_mods = 1 OR push_bit 2 1 OR push_bit 3 1, st_base_mods = 0,
     st_latched_mods = 1 OR push_bit 3 1, st_locked_mods = push_bit 2 1\<rparr>"

definition example_server :: xkb_server where
  "example_server =
    \<lparr>state_status = Success, state_reply = example_state,
     ctrls_status = Success, enabled_ctrls = push_bit 3 1\<rparr>"

definition example_display :: Display where
  "example_display = \<lparr>server = example_server, queue = [], later = []\<rparr>"

text \<open>
  More inputs: nothing set at all; super latched and locked with sticky keys and
  AccessX keys enabled; and the worked example with other bits added (bit 4 latched,
  caps lock locked, repeat keys enabled).
\<close>

definition idle_display :: Display where
  "idle_display =
    \<lparr>server =
       \<lparr>state_status = Success,
        state_reply = \<lparr>st_mods = 0, st_base_mods = 0, st_latched_mods = 0, st_locked_mods = 0\<rparr>,
        ctrls_status = Success, enabled_ctrls = 0\<rparr>,
     queue = [], later = []\<rparr>"

definition accessx_display :: Display where
  "accessx_display =
    \<lparr>server =
       \<lparr>state_status = Success,
        state_reply = \<lparr>st_mods = push_bit 6 1, st_base_mods = 0,
                       st_latched_mods = push_bit 6 1, st_locked_mods = push_bit 6 1\<rparr>,
        ctrls_status = Success, enabled_ctrls = push_bit 3 1 OR push_bit 6 1\<rparr>,
     queue = [], later = []\<rparr>"

definition other_bits_display :: Display where
  "other_bits_display =
    \<lparr>server =
       \<lparr>state_status = Success,
        state_reply = \<lparr>st_mods = 0, st_base_mods = 0,
                       st_latched_mods = 1 OR push_bit 3 1 OR push_bit 4 1,
                       st_locked_mods = push_bit 1 1 OR push_bit 2 1\<rparr>,
        ctrls_status = Success, enabled_ctrls = 1 OR push_bit 3 1\<rparr>,
     queue = [], later = []\<rparr>"

text \<open>
  The bits of a modifier mask that the table names, and the bits of the enabled
  controls that the program tests.
\<close>

definition table_bits :: c_uchar where
  "table_bits = 1 OR push_bit 2 1 OR push_bit 3 1 OR push_bit 6 1"

definition control_bits :: c_long where
  "control_bits = XkbStickyKeysMask OR XkbAccessXKeysMask"

text \<open>
  The spec's words for the wait (section 4.4). A state notification is unchanged when
  it is an event of the extension, its sub-type is the modifier-state notification and
  its four modifier fields equal those of the snapshot. Every other event of the
  extension qualifies: a real modifier change, or a controls or AccessX notification.
\<close>

definition unchanged_state_notify :: "c_int \<Rightarrow> XkbStateRec \<Rightarrow> XkbEvent \<Rightarrow> bool" where
  "unchanged_state_notify t st e =
    (ev_type e = t \<and> ev_xkb_type e = XkbStateNotify \<and>
     ev_mods e = ucast (st_mods st) \<and>
     ev_base_mods e = ucast (st_base_mods st) \<and>
     ev_latched_mods e = ucast (st_latched_mods st) \<and>
     ev_locked_mods e = ucast (st_locked_mods st))"

definition qualifying :: "c_int \<Rightarrow> XkbStateRec \<Rightarrow> XkbEvent \<Rightarrow> bool" where
  "qualifying t st e = (ev_type e = t \<and> \<not> unchanged_state_notify t st e)"

text \<open>
  The events still to be received on a connection, the server answers it goes through,
  and the line for a server's answers.
\<close>

definition pending_events :: "Display \<Rightarrow> XkbEvent list" where
  "pending_events d = queue d @ concat (map snd (later d))"

definition servers :: "Display \<Rightarrow> xkb_server list" where
  "servers d = server d # map fst (later d)"

definition status_line :: "xkb_server \<Rightarrow> string" where
  "status_line s = join_words (applicable_words (state_reply s) (enabled_ctrls s)) @ [CHR 0x0A]"

text \<open>
  The first \<open>n\<close> events that \<open>XNextEvent\<close> hands out on a connection, and the
  connection after them; \<open>None\<close> when fewer than \<open>n\<close> ever come.
\<close>

fun receive :: "Display \<Rightarrow> nat \<Rightarrow> (XkbEvent list \<times> Display) option" where
  "receive d 0 = Some ([], d)"
| "receive d (Suc n) =
    (case XNextEvent d of
       None \<Rightarrow> None
     | Some (e, d') \<Rightarrow>
        (case receive d' n of
           None \<Rightarrow> None
         | Some (es, d'') \<Rightarrow> Some (e # es, d'')))"

text \<open>The same connection with \<open>v\<close> as the status of every \<open>XkbGetState\<close> call.\<close>

definition state_fetch_status :: "c_int \<Rightarrow> Display \<Rightarrow> Display" where
  "state_fetch_status v d =
    d\<lparr>server := (server d)\<lparr>state_status := v\<rparr>,
      later := map (\<lambda>b. ((fst b)\<lparr>state_status := v\<rparr>, snd b)) (later d)\<rparr>"

text \<open>
  Events of an extension whose event type is 85: a state notification that repeats
  the worked example's state, one that drops the latched modifiers, one that drops
  all modifiers, and a controls notification (the bytes read as modifier fields equal
  the worked example's state).
\<close>

definition same_state_event :: XkbEvent where
  "same_state_event =
    \<lparr>ev_type = 85, ev_xkb_type = XkbStateNotify,
     ev_mods = 1 OR push_bit 2 1 OR push_bit 3 1, ev_base_mods = 0,
     ev_latched_mods = 1 OR push_bit 3 1, ev_locked_mods = push_bit 2 1\<rparr>"

definition changed_state_event :: XkbEvent where
  "changed_state_event =
    \<lparr>ev_type = 85, ev_xkb_type = XkbStateNotify,
     ev_mods = push_bit 2 1, ev_base_mods = 0,
     ev_latched_mods = 0, ev_locked_mods = push_bit 2 1\<rparr>"

definition released_event :: XkbEvent where
  "released_event =
    \<lparr>ev_type = 85, ev_xkb_type = XkbStateNotify,
     ev_mods = 0, ev_base_mods = 0, ev_latched_mods = 0, ev_locked_mods = 0\<rparr>"

definition controls_event :: XkbEvent where
  "controls_event =
    \<lparr>ev_type = 85, ev_xkb_type = XkbControlsNotify,
     ev_mods = 1 OR push_bit 2 1 OR push_bit 3 1, ev_base_mods = 0,
     ev_latched_mods = 1 OR push_bit 3 1, ev_locked_mods = push_bit 2 1\<rparr>"

text \<open>
  Connections for the wait: one on which an unchanged state notification and then a
  controls notification arrive, and one on which a burst of three events arrives
  after which nothing is set. \<open>failing_server\<close> fails the controls fetch with 11
  (\<open>BadAlloc\<close>); the last definition is the environment of a run whose first
  controls fetch fails.
\<close>

definition failing_server :: xkb_server where
  "failing_server = example_server\<lparr>ctrls_status := 11\<rparr>"

definition skip_display :: Display where
  "skip_display =
    \<lparr>server = example_server, queue = [],
     later = [(example_server, [same_state_event, controls_event])]\<rparr>"

definition idle_server :: xkb_server where
  "idle_server = server idle_display"

definition burst :: "XkbEvent list" where
  "burst = [changed_state_event, controls_event, released_event]"

definition burst_display :: Display where
  "burst_display = \<lparr>server = example_server, queue = [], later = [(idle_server, burst)]\<rparr>"

definition controls_failure_env :: environment where
  "controls_failure_env =
    \<lparr>getenv_DISPLAY = Some '':0'',
     XkbOpenDisplay = Some (\<lparr>server = failing_server, queue = [], later = []\<rparr>, 85),
     XkbGetKeyboard = True, XkbSelectEvents = True\<rparr>"

section \<open>The status line is the applicable words, joined\<close>

lemma print_words_simps [simp]:
  "print_words [] s = s"
  "print_words (w # ws) s = print_words ws (print_word w s)"
  by (simp_all add: print_words_def)

lemma print_words_append: "print_words (ws @ vs) s = print_words vs (print_words ws s)"
  by (simp add: print_words_def)

lemma print_words_False:
  "print_words ws (out, False) = (out @ concat (map (\<lambda>v. CHR 0x20 # v) ws), False)"
  by (induction ws arbitrary: out) (simp_all add: print_word_def)

lemma print_words_True: "print_words ws ([], True) = (join_words ws, ws = [])"
  by (cases ws) (simp_all add: join_words_def print_word_def print_words_False)

lemma mods_loop_step:
  assumes "mod_value m \<noteq> 0" and "latched m \<noteq> None" and "locked m \<noteq> None"
  shows "mods_loop state (m # ms) s = mods_loop state ms (print_words (entry_words state m) s)"
  using assms by (auto simp: entry_words_def latched_set_def locked_set_def word_list_def)

lemma fields_not_Nil [simp]: "split_fields cs \<noteq> []"
  by (induction cs) simp_all

lemma mods_loop_mods:
  "mods_loop state mods s = Some (print_words (concat (map (entry_words state) table_entries)) s)"
  unfolding mods_def table_entries_def
  by (simp add: mods_loop_step print_words_append del: mods_loop.simps(2)) simp

lemma print_status_Success:
  assumes "ctrls_status (server d) = Success"
  shows "print_status d =
    Inr (state_reply (server d),
         join_words (applicable_words (state_reply (server d)) (enabled_ctrls (server d))) @ [CHR 0x0A])"
proof -
  let ?st = "state_reply (server d)" and ?c = "enabled_ctrls (server d)"
  define s1 where "s1 = print_words (concat (map (entry_words ?st) table_entries)) ([], True)"
  define s2 where "s2 = (if ucast ?c AND XkbStickyKeysMask \<noteq> 0 then print_word ''sticky'' s1 else s1)"
  define s3 where "s3 = (if ucast ?c AND XkbAccessXKeysMask \<noteq> 0 then print_word ''accessx'' s2 else s2)"
  have loop: "mods_loop ?st mods ([], True) = Some s1"
    by (simp add: s1_def mods_loop_mods)
  have "print_words (applicable_words ?st ?c) ([], True) = s3"
    by (simp add: applicable_words_def print_words_append sticky_enabled_def
        accessx_enabled_def s1_def s2_def s3_def)
  from this [symmetric] have line: "fst s3 = join_words (applicable_words ?st ?c)"
    by (simp add: print_words_True)
  from assms loop have "print_status d = Inr (?st, fst s3 @ [CHR 0x0A])"
    by (simp add: print_status_def XkbGetState_def XkbGetControls_def s2_def s3_def)
  with line show ?thesis
    by simp
qed


lemma table_entries_eq:
  "table_entries =
    [\<lparr>mod_value = 1, latched = Some ''shift'', locked = Some ''SHIFT''\<rparr>,
     \<lparr>mod_value = push_bit 2 1, latched = Some ''ctrl'', locked = Some ''CTRL''\<rparr>,
     \<lparr>mod_value = push_bit 3 1, latched = Some ''alt'', locked = Some ''ALT''\<rparr>,
     \<lparr>mod_value = push_bit 6 1, latched = Some ''super'', locked = Some ''SUPER''\<rparr>]"
  by (simp add: table_entries_def mods_def)

lemma modifier_words_eq:
  "modifier_words = [''shift'', ''SHIFT'', ''ctrl'', ''CTRL'', ''alt'', ''ALT'', ''super'', ''SUPER'']"
  by (simp add: modifier_words_def table_entries_eq word_list_def)

lemma fields_word:
  "CHR 0x20 \<notin> set w \<Longrightarrow> split_fields (w @ cs) = (w @ hd (split_fields cs)) # tl (split_fields cs)"
  by (induction w) auto

lemma fields_spaced:
  "\<forall>w\<in>set ws. CHR 0x20 \<notin> set w \<Longrightarrow> split_fields (concat (map (\<lambda>v. CHR 0x20 # v) ws)) = [] # ws"
  by (induction ws) (simp_all add: fields_word)

lemma fields_join_words:
  assumes "ws \<noteq> []" and "\<forall>w\<in>set ws. CHR 0x20 \<notin> set w"
  shows "split_fields (join_words ws) = ws"
proof -
  from assms(1) obtain w vs where ws: "ws = w # vs" by (cases ws) auto
  with assms(2) show ?thesis
    by (simp add: join_words_def fields_word fields_spaced)
qed

lemma join_words_no_newline:
  "\<forall>w\<in>set ws. plain_word w \<Longrightarrow> CHR 0x0A \<notin> set (join_words ws)"
  by (cases ws) (auto simp: join_words_def plain_word_def)

lemma join_words_Nil_iff:
  "\<forall>w\<in>set ws. plain_word w \<Longrightarrow> join_words ws = [] \<longleftrightarrow> ws = []"
  by (cases ws) (auto simp: join_words_def plain_word_def)

lemma line_words_join_words:
  assumes "\<forall>w\<in>set ws. plain_word w"
  shows "line_words (join_words ws @ [CHR 0x0A]) = ws"
proof -
  have "takeWhile (\<lambda>c. c \<noteq> CHR 0x0A) (join_words ws @ [CHR 0x0A]) = join_words ws"
    using join_words_no_newline [OF assms] by (subst takeWhile_append2) auto
  moreover have "ws \<noteq> [] \<Longrightarrow> split_fields (join_words ws) = ws"
    using assms by (intro fields_join_words) (auto simp: plain_word_def)
  ultimately show ?thesis
    using join_words_Nil_iff [OF assms] by (auto simp: line_words_def)
qed

lemma set_entry_words:
  "m \<in> set table_entries \<Longrightarrow> set (entry_words state m) \<subseteq> set modifier_words"
  by (auto simp: entry_words_def modifier_words_def word_list_def split: option.splits)

lemma set_mod_words:
  "set (concat (map (entry_words state) table_entries)) \<subseteq> set modifier_words"
  using set_entry_words by fastforce

lemma plain_modifier_words: "w \<in> set modifier_words \<Longrightarrow> plain_word w"
  by (auto simp: modifier_words_eq plain_word_def)

lemma plain_applicable_words: "\<forall>w\<in>set (applicable_words state ctrls). plain_word w"
proof
  fix w assume "w \<in> set (applicable_words state ctrls)"
  then consider "w \<in> set modifier_words" | "w = ''sticky''" | "w = ''accessx''"
    using set_mod_words [of state] by (auto simp: applicable_words_def split: if_splits)
  then show "plain_word w"
    by cases (auto simp: plain_modifier_words, auto simp: plain_word_def)
qed

lemma line_words_status:
  "line_words (join_words (applicable_words state ctrls) @ [CHR 0x0A]) = applicable_words state ctrls"
  by (rule line_words_join_words [OF plain_applicable_words])

lemma mods_entry:
  "m \<in> set mods \<Longrightarrow> latched m = Some wl \<Longrightarrow> m \<in> set table_entries"
  by (auto simp: mods_def table_entries_eq)

lemma mem_entry_words:
  "w \<in> set (entry_words st m) \<longleftrightarrow>
    (latched_set st m \<and> latched m = Some w) \<or>
    (\<not> latched_set st m \<and> locked_set st m \<and> locked m = Some w)"
  by (auto simp: entry_words_def word_list_def split: option.splits)

lemma mem_applicable_words:
  "w \<in> set (applicable_words st c) \<longleftrightarrow>
    (\<exists>m\<in>set table_entries. w \<in> set (entry_words st m)) \<or>
    (w = ''sticky'' \<and> sticky_enabled c) \<or> (w = ''accessx'' \<and> accessx_enabled c)"
  by (auto simp: applicable_words_def)

lemma entry_word_mem:
  assumes "m \<in> set table_entries" and "latched m = Some wl" and "locked m = Some wu"
  shows "(wl \<in> set (applicable_words st c) \<longleftrightarrow> latched_set st m) \<and>
         (wu \<in> set (applicable_words st c) \<longleftrightarrow> locked_set st m \<and> \<not> latched_set st m)"
proof -
  from assms consider
      "m = \<lparr>mod_value = 1, latched = Some ''shift'', locked = Some ''SHIFT''\<rparr>"
        "wl = ''shift''" "wu = ''SHIFT''"
    | "m = \<lparr>mod_value = push_bit 2 1, latched = Some ''ctrl'', locked = Some ''CTRL''\<rparr>"
        "wl = ''ctrl''" "wu = ''CTRL''"
    | "m = \<lparr>mod_value = push_bit 3 1, latched = Some ''alt'', locked = Some ''ALT''\<rparr>"
        "wl = ''alt''" "wu = ''ALT''"
    | "m = \<lparr>mod_value = push_bit 6 1, latched = Some ''super'', locked = Some ''SUPER''\<rparr>"
        "wl = ''super''" "wu = ''SUPER''"
    unfolding table_entries_eq by auto
  then show ?thesis
  proof cases
    case 1
    then show ?thesis
      by (simp add: mem_applicable_words mem_entry_words table_entries_eq) blast
  next
    case 2
    then show ?thesis
      by (simp add: mem_applicable_words mem_entry_words table_entries_eq) blast
  next
    case 3
    then show ?thesis
      by (simp add: mem_applicable_words mem_entry_words table_entries_eq) blast
  next
    case 4
    then show ?thesis
      by (simp add: mem_applicable_words mem_entry_words table_entries_eq) blast
  qed
qed

lemma join_words_snoc:
  "join_words (ws @ [v]) = (if ws = [] then v else join_words ws @ CHR 0x20 # v)"
  by (cases ws) (simp_all add: join_words_def)

lemma join_words_ends:
  assumes "ws \<noteq> []" and "\<forall>w\<in>set ws. plain_word w"
  shows "join_words ws \<noteq> [] \<and> hd (join_words ws) \<noteq> CHR 0x20 \<and> last (join_words ws) \<noteq> CHR 0x20"
proof -
  from assms(1) obtain w vs where ws: "ws = w # vs" by (cases ws) auto
  with assms(2) have w: "w \<noteq> []" "CHR 0x20 \<notin> set w" by (auto simp: plain_word_def)
  then have "hd w \<noteq> CHR 0x20" by (cases w) auto
  with w ws have first: "join_words ws \<noteq> [] \<and> hd (join_words ws) \<noteq> CHR 0x20"
    by (simp add: join_words_def)
  from assms(1) obtain us v where snoc: "ws = us @ [v]" by (cases ws rule: rev_cases) auto
  with assms(2) have v: "v \<noteq> []" "CHR 0x20 \<notin> set v" by (auto simp: plain_word_def)
  then have "last v \<noteq> CHR 0x20" using last_in_set [of v] by metis
  with v snoc have "last (join_words ws) \<noteq> CHR 0x20"
    by (simp add: join_words_snoc)
  with first show ?thesis by simp
qed

lemma no_words:
  assumes "\<forall>m\<in>set table_entries. \<not> latched_set st m \<and> \<not> locked_set st m"
    and "\<not> sticky_enabled c" and "\<not> accessx_enabled c"
  shows "applicable_words st c = []"
  using assms by (simp add: applicable_words_def entry_words_def)

lemma sticky_not_modifier: "''sticky'' \<notin> set modifier_words" "''accessx'' \<notin> set modifier_words"
  by (simp_all add: modifier_words_eq)

lemma latched_set_table_bits:
  assumes "m \<in> set table_entries"
  shows "latched_set st m \<longleftrightarrow> ucast (st_latched_mods st AND table_bits) AND mod_value m \<noteq> 0"
proof -
  have "ucast table_bits AND mod_value m = mod_value m"
    using assms by (auto simp: table_entries_eq table_bits_def)
  then have "ucast (st_latched_mods st) AND mod_value m =
      ucast (st_latched_mods st AND table_bits) AND mod_value m"
    by (simp add: unsigned_and_eq and.assoc)
  then show ?thesis by (simp add: latched_set_def)
qed

lemma locked_set_table_bits:
  assumes "m \<in> set table_entries"
  shows "locked_set st m \<longleftrightarrow> ucast (st_locked_mods st AND table_bits) AND mod_value m \<noteq> 0"
proof -
  have "ucast table_bits AND mod_value m = mod_value m"
    using assms by (auto simp: table_entries_eq table_bits_def)
  then have "ucast (st_locked_mods st) AND mod_value m =
      ucast (st_locked_mods st AND table_bits) AND mod_value m"
    by (simp add: unsigned_and_eq and.assoc)
  then show ?thesis by (simp add: locked_set_def)
qed

lemma enabled_control_bits:
  "sticky_enabled c \<longleftrightarrow> (ucast c AND control_bits) AND XkbStickyKeysMask \<noteq> 0"
  "accessx_enabled c \<longleftrightarrow> (ucast c AND control_bits) AND XkbAccessXKeysMask \<noteq> 0"
proof -
  have "control_bits AND XkbStickyKeysMask = XkbStickyKeysMask"
    "control_bits AND XkbAccessXKeysMask = XkbAccessXKeysMask"
    by (simp_all add: control_bits_def XkbStickyKeysMask_def XkbAccessXKeysMask_def)
  then show "sticky_enabled c \<longleftrightarrow> (ucast c AND control_bits) AND XkbStickyKeysMask \<noteq> 0"
    "accessx_enabled c \<longleftrightarrow> (ucast c AND control_bits) AND XkbAccessXKeysMask \<noteq> 0"
    by (simp_all add: sticky_enabled_def accessx_enabled_def and.assoc)
qed

lemmas spec_defs = latched_set_def locked_set_def sticky_enabled_def accessx_enabled_def
  XkbStickyKeysMask_def XkbAccessXKeysMask_def Success_def

section \<open>The wait for events\<close>

lemma XNextEvent_pending:
  "XNextEvent d = Some (e, d') \<Longrightarrow>
    pending_events d = e # pending_events d' \<and> set (servers d') \<subseteq> set (servers d)"
proof (induction d rule: XNextEvent.induct)
  case (1 d)
  show ?case
  proof (cases "queue d")
    case (Cons a q)
    with "1.prems" show ?thesis
      by (auto simp: XNextEvent.simps [of d] pending_events_def servers_def)
  next
    case Nil
    note q = Nil
    show ?thesis
    proof (cases "later d")
      case Nil
      with q "1.prems" show ?thesis
        by (simp add: XNextEvent.simps [of d])
    next
      case (Cons b l)
      obtain s evs where b: "b = (s, evs)" by (cases b)
      from q Cons b "1.prems"
      have "XNextEvent (d\<lparr>server := s, queue := evs, later := l\<rparr>) = Some (e, d')"
        by (simp add: XNextEvent.simps [of d])
      from "1.IH" [OF q Cons b [symmetric] this] q Cons b show ?thesis
        by (auto simp: pending_events_def servers_def)
    qed
  qed
qed

lemma XNextEvent_None: "pending_events d = [] \<Longrightarrow> XNextEvent d = None"
proof (induction d rule: XNextEvent.induct)
  case (1 d)
  from "1.prems" have q: "queue d = []" by (simp add: pending_events_def)
  show ?case
  proof (cases "later d")
    case Nil
    with q show ?thesis by (simp add: XNextEvent.simps [of d])
  next
    case (Cons b l)
    obtain s evs where b: "b = (s, evs)" by (cases b)
    from "1.prems" Cons b
    have "pending_events (d\<lparr>server := s, queue := evs, later := l\<rparr>) = []"
      by (simp add: pending_events_def)
    from "1.IH" [OF q Cons b [symmetric] this] q Cons b show ?thesis
      by (simp add: XNextEvent.simps [of d])
  qed
qed

lemma wait_loop_unchanged:
  "XNextEvent d = Some (e, d') \<Longrightarrow> unchanged_state_notify t st e \<Longrightarrow>
    wait_loop t st d = wait_loop t st d'"
  by (simp add: wait_loop.simps [of t st d] unchanged_state_notify_def)

lemma wait_loop_qualifying:
  "XNextEvent d = Some (e, d') \<Longrightarrow> qualifying t st e \<Longrightarrow>
    wait_loop t st d = Some (d'\<lparr>queue := []\<rparr>)"
  by (auto simp: wait_loop.simps [of t st d] qualifying_def unchanged_state_notify_def drain_queue)

lemma wait_loop_blocked:
  "\<forall>e\<in>set (pending_events d). unchanged_state_notify t st e \<Longrightarrow> wait_loop t st d = None"
proof (induction "pending_events d" arbitrary: d)
  case Nil
  then show ?case
    by (simp add: wait_loop.simps [of t st d] XNextEvent_None)
next
  case (Cons e es)
  show ?case
  proof (cases "XNextEvent d")
    case None
    then show ?thesis by (simp add: wait_loop.simps [of t st d])
  next
    case (Some p)
    obtain e' d' where p: "p = (e', d')" by (cases p)
    from XNextEvent_pending [OF Some [unfolded p]] Cons.hyps(2)
    have eq: "e' = e" "es = pending_events d'" by simp_all
    with Cons.prems Cons.hyps(2) have "unchanged_state_notify t st e'"
      "\<forall>e\<in>set (pending_events d'). unchanged_state_notify t st e"
      by (metis list.set_intros(1), metis list.set_intros(2))
    with Cons.hyps(1) [OF eq(2)] wait_loop_unchanged [OF Some [unfolded p]]
    show ?thesis by simp
  qed
qed

lemma wait_loop_discarded:
  "XNextEvent d = Some (e, d') \<Longrightarrow> \<not> qualifying t st e \<Longrightarrow>
    wait_loop t st d = wait_loop t st d'"
  by (auto simp: wait_loop.simps [of t st d] qualifying_def unchanged_state_notify_def)

lemma wait_loop_receive:
  "receive d n = Some (es, d1) \<Longrightarrow> \<forall>e\<in>set es. \<not> qualifying t st e \<Longrightarrow>
    wait_loop t st d = wait_loop t st d1"
proof (induction n arbitrary: d es)
  case 0
  then show ?case by simp
next
  case (Suc n)
  from Suc.prems(1) obtain e d' es' where next_ev: "XNextEvent d = Some (e, d')"
    and rest: "receive d' n = Some (es', d1)" and es: "es = e # es'"
    by (auto split: option.splits)
  from Suc.prems(2) es have "\<not> qualifying t st e" "\<forall>e\<in>set es'. \<not> qualifying t st e"
    by simp_all
  with wait_loop_discarded [OF next_ev] Suc.IH [OF rest] show ?case
    by simp
qed

lemma wait_loop_none_qualifying:
  "\<forall>e\<in>set (pending_events d). \<not> qualifying t st e \<Longrightarrow> wait_loop t st d = None"
proof (induction "pending_events d" arbitrary: d)
  case Nil
  then show ?case
    by (simp add: wait_loop.simps [of t st d] XNextEvent_None)
next
  case (Cons e es)
  show ?case
  proof (cases "XNextEvent d")
    case None
    then show ?thesis by (simp add: wait_loop.simps [of t st d])
  next
    case (Some p)
    obtain e' d' where p: "p = (e', d')" by (cases p)
    from XNextEvent_pending [OF Some [unfolded p]] Cons.hyps(2)
    have eq: "e' = e" "es = pending_events d'" by simp_all
    with Cons.prems Cons.hyps(2) have "\<not> qualifying t st e'"
      "\<forall>e\<in>set (pending_events d'). \<not> qualifying t st e"
      by (metis list.set_intros(1), metis list.set_intros(2))
    with Cons.hyps(1) [OF eq(2)] wait_loop_discarded [OF Some [unfolded p]]
    show ?thesis by simp
  qed
qed

lemma controls_notify_qualifying:
  "ev_type e = t \<Longrightarrow> ev_xkb_type e = XkbControlsNotify \<or> ev_xkb_type e = XkbAccessXNotify \<Longrightarrow>
    qualifying t st e"
  by (auto simp: qualifying_def unchanged_state_notify_def XkbControlsNotify_def
      XkbAccessXNotify_def XkbStateNotify_def)

lemma wait_loop_servers:
  "wait_loop t st d = Some d' \<Longrightarrow> set (servers d') \<subseteq> set (servers d)"
proof (induction t st d rule: wait_loop.induct)
  case (1 t st d)
  from "1.prems" obtain e d1 where next_ev: "XNextEvent d = Some (e, d1)"
    by (cases "XNextEvent d") (auto simp: wait_loop.simps [of t st d])
  from XNextEvent_pending [OF next_ev] have sub: "set (servers d1) \<subseteq> set (servers d)"
    by simp
  from "1.prems" next_ev
  consider "wait_loop t st d1 = Some d'" "ev_type e \<noteq> t"
    | "wait_loop t st d1 = Some d'" "ev_type e = t" "ev_xkb_type e = XkbStateNotify"
        "ev_mods e = ucast (st_mods st) \<and> ev_base_mods e = ucast (st_base_mods st) \<and>
         ev_latched_mods e = ucast (st_latched_mods st) \<and>
         ev_locked_mods e = ucast (st_locked_mods st)"
    | "drain d1 = Some d'"
    by (auto simp: wait_loop.simps [of t st d] split: if_splits)
  then show ?case
  proof cases
    case 1
    from "1.IH"(2) [OF next_ev refl 1(2) 1(1)] sub show ?thesis by blast
  next
    case 2
    from "1.IH"(1) [OF next_ev refl 2(2) 2(3) 2(4) 2(1)] sub show ?thesis by blast
  next
    case 3
    then have "d' = d1\<lparr>queue := []\<rparr>" by (simp add: drain_queue)
    with sub show ?thesis by (simp add: servers_def)
  qed
qed

section \<open>The main loop\<close>

lemma status_line_example: "status_line example_server = ''shift CTRL alt sticky'' @ [CHR 0x0A]"
  by (simp add: status_line_def example_server_def example_state_def applicable_words_def
      table_entries_eq entry_words_def word_list_def join_words_def spec_defs)

lemma print_status_line:
  "ctrls_status (server d) = Success \<Longrightarrow>
    print_status d = Inr (state_reply (server d), status_line (server d))"
  by (simp add: print_status_Success status_line_def)

lemma print_status_failure:
  assumes "ctrls_status (server d) \<noteq> Success"
  shows "print_status d =
    Inl \<lparr>stdout = join_words (concat (map (entry_words (state_reply (server d))) table_entries)),
         stderr = ''XkbGetControls() returned '' @ fmt_d (ctrls_status (server d)),
         result = Exit 1\<rparr>"
  using assms
  by (simp add: print_status_def XkbGetState_def XkbGetControls_def mods_loop_mods
      print_words_True)

lemma partial_line_no_newline:
  "CHR 0x0A \<notin> set (join_words (concat (map (entry_words st) table_entries)))"
  using set_mod_words [of st] plain_modifier_words
  by (intro join_words_no_newline) blast

lemma main_loop_Inl:
  "print_status d = Inl r \<Longrightarrow> main_loop t d out = r\<lparr>stdout := out @ stdout r\<rparr>"
  by (simp add: main_loop.simps [of t d out])

lemma main_loop_blocked:
  "print_status d = Inr (st, line) \<Longrightarrow> wait_loop t st d = None \<Longrightarrow>
    main_loop t d out = \<lparr>stdout = out @ line, stderr = [], result = Blocked\<rparr>"
  by (simp add: main_loop.simps [of t d out])

lemma main_loop_step:
  "print_status d = Inr (st, line) \<Longrightarrow> wait_loop t st d = Some d' \<Longrightarrow>
    main_loop t d out = main_loop t d' (out @ line)"
  by (simp add: main_loop.simps [of t d out])

lemma main_loop_stdout: "\<exists>rest. stdout (main_loop t d out) = out @ rest"
proof (induction t d out rule: main_loop.induct)
  case (1 t d out)
  show ?case
  proof (cases "print_status d")
    case (Inl r)
    then show ?thesis by (simp add: main_loop_Inl)
  next
    case (Inr p)
    obtain st line where p: "p = (st, line)" by (cases p)
    show ?thesis
    proof (cases "wait_loop t st d")
      case None
      with Inr p show ?thesis by (simp add: main_loop_blocked)
    next
      case (Some d')
      from "1.IH" [OF Inr p [symmetric] Some]
      obtain rest where "stdout (main_loop t d' (out @ line)) = (out @ line) @ rest" by blast
      with Inr p Some show ?thesis by (simp add: main_loop_step)
    qed
  qed
qed

lemma main_loop_failure:
  assumes "ctrls_status (server d) \<noteq> Success"
  shows "main_loop t d out =
    \<lparr>stdout = out @ join_words (concat (map (entry_words (state_reply (server d))) table_entries)),
     stderr = ''XkbGetControls() returned '' @ fmt_d (ctrls_status (server d)),
     result = Exit 1\<rparr>"
  by (simp add: main_loop_Inl [OF print_status_failure [OF assms]])

lemma main_loop_prints:
  assumes "ctrls_status (server d) = Success"
  shows "\<exists>rest. stdout (main_loop t d out) = out @ status_line (server d) @ rest"
proof (cases "wait_loop t (state_reply (server d)) d")
  case None
  with main_loop_blocked [OF print_status_line [OF assms]] show ?thesis by simp
next
  case (Some d')
  from main_loop_stdout [of t d' "out @ status_line (server d)"]
    main_loop_step [OF print_status_line [OF assms] Some]
  show ?thesis by simp
qed

lemma status_line_one_newline: "count_list (status_line s) (CHR 0x0A) = 1"
  using join_words_no_newline [OF plain_applicable_words, of "state_reply s" "enabled_ctrls s"]
  by (simp add: status_line_def count_list_0_iff)

lemma run_after_event:
  assumes pass: "print_status d = Inr (st, line)"
    and skipped: "receive d n = Some (es, d1)" "\<forall>e\<in>set es. \<not> qualifying t st e"
    and next_ev: "XNextEvent d1 = Some (e, d')" and qual: "qualifying t st e"
    and ok: "ctrls_status (server d') = Success"
  shows "wait_loop t st d = Some \<lparr>server = server d', queue = [], later = later d'\<rparr>"
    and "main_loop t d out =
      main_loop t \<lparr>server = server d', queue = [], later = later d'\<rparr> (out @ line)"
    and "print_status \<lparr>server = server d', queue = [], later = later d'\<rparr> =
      Inr (state_reply (server d'), status_line (server d'))"
    and "\<exists>rest. stdout (main_loop t d out) = out @ line @ status_line (server d') @ rest"
    and "\<forall>e\<in>set (concat (map snd (later d'))). \<not> qualifying t (state_reply (server d')) e \<Longrightarrow>
      main_loop t d out =
        \<lparr>stdout = out @ line @ status_line (server d'), stderr = [], result = Blocked\<rparr>"
proof -
  let ?d = "\<lparr>server = server d', queue = [], later = later d'\<rparr>"
  have "wait_loop t st d = wait_loop t st d1"
    by (rule wait_loop_receive [OF skipped])
  also have "\<dots> = Some ?d"
    using wait_loop_qualifying [OF next_ev qual] by simp
  finally show returns: "wait_loop t st d = Some ?d" .
  show run: "main_loop t d out = main_loop t ?d (out @ line)"
    by (rule main_loop_step [OF pass returns])
  from ok show line: "print_status ?d = Inr (state_reply (server d'), status_line (server d'))"
    using print_status_line [of ?d] by simp
  from ok main_loop_prints [of ?d t "out @ line"] run
  show "\<exists>rest. stdout (main_loop t d out) = out @ line @ status_line (server d') @ rest"
    by simp
  assume "\<forall>e\<in>set (concat (map snd (later d'))). \<not> qualifying t (state_reply (server d')) e"
  then have "wait_loop t (state_reply (server d')) ?d = None"
    by (intro wait_loop_none_qualifying) (simp add: pending_events_def)
  from main_loop_blocked [OF line this, of "out @ line"] run
  show "main_loop t d out =
      \<lparr>stdout = out @ line @ status_line (server d'), stderr = [], result = Blocked\<rparr>"
    by simp
qed

lemma main_loop_ends:
  "result (main_loop t d out) = Blocked \<and> stderr (main_loop t d out) = [] \<or>
   (\<exists>s\<in>set (servers d). ctrls_status s \<noteq> Success \<and>
      result (main_loop t d out) = Exit 1 \<and>
      stderr (main_loop t d out) = ''XkbGetControls() returned '' @ fmt_d (ctrls_status s))"
proof (induction t d out rule: main_loop.induct)
  case (1 t d out)
  show ?case
  proof (cases "ctrls_status (server d) = Success")
    case False
    then show ?thesis
      by (auto simp: main_loop_failure servers_def)
  next
    case True
    note line = print_status_line [OF True]
    show ?thesis
    proof (cases "wait_loop t (state_reply (server d)) d")
      case None
      with main_loop_blocked [OF line None] show ?thesis by simp
    next
      case (Some d')
      from "1.IH" [OF line refl Some] wait_loop_servers [OF Some]
        main_loop_step [OF line Some, of out]
      show ?thesis by auto
    qed
  qed
qed

lemma main_setup_failures:
  "XkbOpenDisplay env = None \<Longrightarrow>
    main env =
      \<lparr>stdout = [],
       stderr = ''Failed to initialize Xkb extension for display ''
         @ fmt_s (getenv_DISPLAY env) @ [CHR 0x0A],
       result = Exit 1\<rparr>"
  "XkbOpenDisplay env = Some p \<Longrightarrow> \<not> XkbGetKeyboard env \<Longrightarrow>
    main env =
      \<lparr>stdout = [],
       stderr = ''XkbGetKeyboard() failed for display '' @ [CHR 0x27]
         @ fmt_s (getenv_DISPLAY env) @ [CHR 0x27, CHR 0x0A],
       result = Exit 1\<rparr>"
  "XkbOpenDisplay env = Some p \<Longrightarrow> XkbGetKeyboard env \<Longrightarrow> \<not> XkbSelectEvents env \<Longrightarrow>
    main env =
      \<lparr>stdout = [], stderr = ''XkbSelectEvents() failed'' @ [CHR 0x0A], result = Exit 1\<rparr>"
  by (simp_all add: main_def open_default_display_def split: prod.splits)

lemma main_exit_status: "result (main env) = Exit 1 \<or> result (main env) = Blocked"
proof (cases "XkbOpenDisplay env")
  case None
  then show ?thesis
    by (simp add: main_setup_failures(1))
next
  case (Some p)
  obtain d t where p: "p = (d, t)" by (cases p)
  consider "\<not> XkbGetKeyboard env" | "XkbGetKeyboard env" "\<not> XkbSelectEvents env"
    | "XkbGetKeyboard env" "XkbSelectEvents env"
    by blast
  then show ?thesis
  proof cases
    case 1
    then show ?thesis by (simp add: main_setup_failures(2) [OF Some])
  next
    case 2
    then show ?thesis by (simp add: main_setup_failures(3) [OF Some])
  next
    case 3
    with Some p have "main env = main_loop t d []"
      by (simp add: main_def open_default_display_def)
    with main_loop_ends [of t d "[]"] show ?thesis by auto
  qed
qed

section \<open>The status of the state fetch\<close>

lemma state_fetch_status_simps [simp]:
  "queue (state_fetch_status v d) = queue d"
  "state_reply (server (state_fetch_status v d)) = state_reply (server d)"
  "ctrls_status (server (state_fetch_status v d)) = ctrls_status (server d)"
  "enabled_ctrls (server (state_fetch_status v d)) = enabled_ctrls (server d)"
  "later (state_fetch_status v d) = map (\<lambda>b. ((fst b)\<lparr>state_status := v\<rparr>, snd b)) (later d)"
  "state_fetch_status v (d\<lparr>queue := q\<rparr>) = (state_fetch_status v d)\<lparr>queue := q\<rparr>"
  by (simp_all add: state_fetch_status_def)

lemma print_status_state_fetch_status:
  "print_status (state_fetch_status v d) = print_status d"
  by (simp add: print_status_def XkbGetState_def XkbGetControls_def mods_loop_mods)

lemma XNextEvent_state_fetch_status:
  "XNextEvent (state_fetch_status v d) =
    map_option (\<lambda>p. (fst p, state_fetch_status v (snd p))) (XNextEvent d)"
proof (induction d rule: XNextEvent.induct)
  case (1 d)
  show ?case
  proof (cases "queue d")
    case (Cons a q)
    then show ?thesis
      by (simp add: XNextEvent.simps [of d] XNextEvent.simps [of "state_fetch_status v d"])
  next
    case Nil
    note q = Nil
    show ?thesis
    proof (cases "later d")
      case Nil
      with q show ?thesis
        by (simp add: XNextEvent.simps [of d] XNextEvent.simps [of "state_fetch_status v d"])
    next
      case (Cons b l)
      obtain s evs where b: "b = (s, evs)" by (cases b)
      have "(state_fetch_status v d)\<lparr>server := s\<lparr>state_status := v\<rparr>, queue := evs,
            later := map (\<lambda>b. ((fst b)\<lparr>state_status := v\<rparr>, snd b)) l\<rparr> =
          state_fetch_status v (d\<lparr>server := s, queue := evs, later := l\<rparr>)"
        by (simp add: state_fetch_status_def)
      with "1.IH" [OF q Cons b [symmetric]] q Cons b show ?thesis
        by (simp add: XNextEvent.simps [of d] XNextEvent.simps [of "state_fetch_status v d"])
    qed
  qed
qed

lemma wait_loop_state_fetch_status:
  "wait_loop t st (state_fetch_status v d) = map_option (state_fetch_status v) (wait_loop t st d)"
proof (induction t st d rule: wait_loop.induct)
  case (1 t st d)
  show ?case
  proof (cases "XNextEvent d")
    case None
    then show ?thesis
      by (simp add: wait_loop.simps [of t st d] wait_loop.simps [of t st "state_fetch_status v d"]
          XNextEvent_state_fetch_status)
  next
    case (Some p)
    obtain e d' where p: "p = (e, d')" by (cases p)
    from "1.IH" [OF Some [unfolded p] refl] Some p show ?thesis
      by (simp add: wait_loop.simps [of t st d] wait_loop.simps [of t st "state_fetch_status v d"]
          XNextEvent_state_fetch_status drain_queue)
  qed
qed

lemma main_loop_state_fetch_status:
  "main_loop t (state_fetch_status v d) out = main_loop t d out"
proof (induction t d out rule: main_loop.induct)
  case (1 t d out)
  show ?case
  proof (cases "print_status d")
    case (Inl r)
    then show ?thesis
      by (simp add: main_loop.simps [of t d out] main_loop.simps [of t "state_fetch_status v d" out]
          print_status_state_fetch_status)
  next
    case (Inr p)
    obtain st line where p: "p = (st, line)" by (cases p)
    show ?thesis
    proof (cases "wait_loop t st d")
      case None
      with Inr p show ?thesis
        by (simp add: main_loop.simps [of t d out]
            main_loop.simps [of t "state_fetch_status v d" out]
            print_status_state_fetch_status wait_loop_state_fetch_status)
    next
      case (Some d')
      from "1.IH" [OF Inr p [symmetric] Some] Inr p Some show ?thesis
        by (simp add: main_loop.simps [of t d out]
            main_loop.simps [of t "state_fetch_status v d" out]
            print_status_state_fetch_status wait_loop_state_fetch_status)
    qed
  qed
qed


section \<open>The claims about the status line\<close>

text \<open>
  C1 (as the spec states it, refuted). The spec's worked example expects the line
  \<open>shift alt CTRL sticky\<close> for shift and alt latched, ctrl locked and sticky keys
  enabled. The program walks the table in its order shift, ctrl, alt, super, so on
  that input it prints \<open>shift CTRL alt sticky\<close> and not the line of the spec.
\<close>

theorem worked_example_counterexample:
  "print_status example_display = Inr (example_state, ''shift CTRL alt sticky'' @ [CHR 0x0A]) \<and>
   print_status example_display \<noteq> Inr (example_state, ''shift alt CTRL sticky'' @ [CHR 0x0A])"
  by (simp add: print_status_Success example_display_def example_server_def
      applicable_words_def table_entries_eq entry_words_def latched_set_def locked_set_def
      sticky_enabled_def accessx_enabled_def XkbStickyKeysMask_def XkbAccessXKeysMask_def
      word_list_def join_words_def example_state_def)

text \<open>
  C1 (amended). For every connection whose state has latched modifiers
  shift-bit|alt-bit and locked modifiers ctrl-bit, with sticky keys enabled and
  AccessX keys disabled (the controls fetch succeeding), one pass of the main loop
  writes exactly the line \<open>shift CTRL alt sticky\<close> followed by a newline.
\<close>

theorem worked_example:
  assumes "st_latched_mods (state_reply (server d)) = 1 OR push_bit 3 1"
    and "st_locked_mods (state_reply (server d)) = push_bit 2 1"
    and "ctrls_status (server d) = Success"
    and "sticky_enabled (enabled_ctrls (server d))"
    and "\<not> accessx_enabled (enabled_ctrls (server d))"
  shows "print_status d = Inr (state_reply (server d), ''shift CTRL alt sticky'' @ [CHR 0x0A])"
  using assms
  by (simp add: print_status_Success applicable_words_def table_entries_eq entry_words_def
      latched_set_def locked_set_def word_list_def join_words_def)

theorem worked_example_witness:
  "st_latched_mods (state_reply (server example_display)) = 1 OR push_bit 3 1 \<and>
   st_locked_mods (state_reply (server example_display)) = push_bit 2 1 \<and>
   ctrls_status (server example_display) = Success \<and>
   sticky_enabled (enabled_ctrls (server example_display)) \<and>
   \<not> accessx_enabled (enabled_ctrls (server example_display)) \<and>
   print_status example_display =
     Inr (state_reply (server example_display), ''shift CTRL alt sticky'' @ [CHR 0x0A])"
  using worked_example [of example_display]
  by (simp add: example_display_def example_server_def example_state_def Success_def
      sticky_enabled_def accessx_enabled_def XkbStickyKeysMask_def XkbAccessXKeysMask_def)

text \<open>
  C2. For every entry of the table with its two words and every pair of latched and
  locked masks, in the line that a pass of the main loop prints: the latched word
  appears exactly when the entry's bit is set in the latched mask, and the locked
  word appears exactly when the bit is set in the locked mask and clear in the
  latched mask. So with the bit in both masks only the latched word appears, and with
  the bit in neither mask the entry gives no word. (A line is printed when the
  controls fetch succeeds.)
\<close>

theorem latched_word_has_priority:
  assumes "ctrls_status (server d) = Success"
    and "m \<in> set mods" and "latched m = Some wl" and "locked m = Some wu"
  shows "\<exists>line. print_status d = Inr (state_reply (server d), line) \<and>
    (wl \<in> set (line_words line) \<longleftrightarrow> latched_set (state_reply (server d)) m) \<and>
    (wu \<in> set (line_words line) \<longleftrightarrow>
       locked_set (state_reply (server d)) m \<and> \<not> latched_set (state_reply (server d)) m)"
  using entry_word_mem [OF mods_entry [OF assms(2,3)] assms(3,4)]
  by (simp add: print_status_Success [OF assms(1)] line_words_status)

theorem latched_word_has_priority_witness:
  "\<exists>line. print_status example_display = Inr (example_state, line) \<and>
     ''ctrl'' \<notin> set (line_words line) \<and> ''CTRL'' \<in> set (line_words line)"
  using latched_word_has_priority [of example_display
      "\<lparr>mod_value = push_bit 2 1, latched = Some ''ctrl'', locked = Some ''CTRL''\<rparr>"
      "''ctrl''" "''CTRL''"]
  by (simp add: example_display_def example_server_def example_state_def mods_def spec_defs)

text \<open>
  C3. For every keyboard state, the line that a pass of the main loop prints (it
  prints one when the controls fetch succeeds) is the applicable words joined by one
  space each and ended by a newline: every word is free of spaces and newlines, the
  words read back from the line are the applicable words, the line does not begin
  with a space, no space stands before the newline, and the newline ends the line.
  When no bit of the table is set in either mask and no control is enabled, the line
  is the newline alone.
\<close>

theorem status_line_format:
  assumes "ctrls_status (server d) = Success"
  shows "\<exists>line ws. print_status d = Inr (state_reply (server d), line) \<and>
    ws = applicable_words (state_reply (server d)) (enabled_ctrls (server d)) \<and>
    line = join_words ws @ [CHR 0x0A] \<and>
    (\<forall>w\<in>set ws. plain_word w) \<and>
    line_words line = ws \<and>
    hd line \<noteq> CHR 0x20 \<and>
    (butlast line = [] \<or> last (butlast line) \<noteq> CHR 0x20) \<and>
    last line = CHR 0x0A \<and>
    ((\<forall>m\<in>set table_entries. \<not> latched_set (state_reply (server d)) m \<and>
                              \<not> locked_set (state_reply (server d)) m) \<and>
     \<not> sticky_enabled (enabled_ctrls (server d)) \<and>
     \<not> accessx_enabled (enabled_ctrls (server d)) \<longrightarrow> line = [CHR 0x0A])"
proof -
  let ?st = "state_reply (server d)" and ?c = "enabled_ctrls (server d)"
  let ?ws = "applicable_words ?st ?c"
  let ?line = "join_words ?ws @ [CHR 0x0A]"
  have plain: "\<forall>w\<in>set ?ws. plain_word w"
    by (rule plain_applicable_words)
  have ends: "hd ?line \<noteq> CHR 0x20 \<and> (butlast ?line = [] \<or> last (butlast ?line) \<noteq> CHR 0x20)"
  proof (cases "?ws = []")
    case True
    then show ?thesis by (simp add: join_words_def)
  next
    case False
    from join_words_ends [OF False plain] show ?thesis
      by (simp add: butlast_append)
  qed
  have empty: "(\<forall>m\<in>set table_entries. \<not> latched_set ?st m \<and> \<not> locked_set ?st m) \<and>
      \<not> sticky_enabled ?c \<and> \<not> accessx_enabled ?c \<longrightarrow> ?line = [CHR 0x0A]"
    using no_words [of ?st ?c] by (auto simp: join_words_def)
  from plain ends empty show ?thesis
    by (simp add: print_status_Success [OF assms] line_words_status)
qed

theorem status_line_format_witness:
  "(\<exists>line. print_status example_display = Inr (example_state, line) \<and>
      line = ''shift CTRL alt sticky'' @ [CHR 0x0A] \<and>
      line_words line = [''shift'', ''CTRL'', ''alt'', ''sticky'']) \<and>
   print_status idle_display = Inr (state_reply (server idle_display), [CHR 0x0A])"
proof -
  have "ctrls_status (server example_display) = Success"
    by (simp add: example_display_def example_server_def)
  from status_line_format [OF this] have first:
    "\<exists>line. print_status example_display = Inr (example_state, line) \<and>
      line = ''shift CTRL alt sticky'' @ [CHR 0x0A] \<and>
      line_words line = [''shift'', ''CTRL'', ''alt'', ''sticky'']"
    by (simp add: example_display_def example_server_def example_state_def
        applicable_words_def table_entries_eq entry_words_def word_list_def
        join_words_def spec_defs)
  have "ctrls_status (server idle_display) = Success"
    by (simp add: idle_display_def)
  from status_line_format [OF this]
  have "print_status idle_display = Inr (state_reply (server idle_display), [CHR 0x0A])"
    by (simp add: idle_display_def table_entries_eq spec_defs)
  with first show ?thesis by simp
qed

text \<open>
  C4. For every keyboard state, in the printed line: if sticky keys are enabled, the
  word \<open>sticky\<close> appears exactly once, every word before it is a modifier word and
  no modifier word comes after it; if AccessX keys are enabled, the word
  \<open>accessx\<close> appears exactly once and is the last word of the line.
\<close>

theorem control_words_position:
  assumes "ctrls_status (server d) = Success"
  shows "\<exists>line. print_status d = Inr (state_reply (server d), line) \<and>
    (sticky_enabled (enabled_ctrls (server d)) \<longrightarrow>
       count_list (line_words line) ''sticky'' = 1 \<and>
       (\<exists>ms rest. line_words line = ms @ ''sticky'' # rest \<and>
          set ms \<subseteq> set modifier_words \<and> set rest \<inter> set modifier_words = {})) \<and>
    (accessx_enabled (enabled_ctrls (server d)) \<longrightarrow>
       count_list (line_words line) ''accessx'' = 1 \<and>
       last (line_words line) = ''accessx'')"
proof -
  let ?st = "state_reply (server d)" and ?c = "enabled_ctrls (server d)"
  let ?ms = "concat (map (entry_words ?st) table_entries)"
  let ?rest = "if accessx_enabled ?c then [''accessx''] else []"
  have ms: "set ?ms \<subseteq> set modifier_words"
    by (rule set_mod_words)
  with sticky_not_modifier have none: "count_list ?ms ''sticky'' = 0" "count_list ?ms ''accessx'' = 0"
    by (auto simp: count_list_0_iff)
  have rest: "set ?rest \<inter> set modifier_words = {}"
    using sticky_not_modifier by auto
  have sticky: "count_list (applicable_words ?st ?c) ''sticky'' = 1 \<and>
      (\<exists>ms rest. applicable_words ?st ?c = ms @ ''sticky'' # rest \<and>
          set ms \<subseteq> set modifier_words \<and> set rest \<inter> set modifier_words = {})"
    if "sticky_enabled ?c"
  proof -
    from that have "applicable_words ?st ?c = ?ms @ ''sticky'' # ?rest"
      by (simp add: applicable_words_def)
    with ms rest none show ?thesis
      by (intro conjI exI [of _ ?ms] exI [of _ ?rest]) simp_all
  qed
  have accessx: "count_list (applicable_words ?st ?c) ''accessx'' = 1 \<and>
      last (applicable_words ?st ?c) = ''accessx''"
    if "accessx_enabled ?c"
    using that none by (simp add: applicable_words_def)
  from sticky accessx show ?thesis
    by (simp add: print_status_Success [OF assms] line_words_status)
qed

theorem control_words_position_witness:
  "\<exists>line. print_status accessx_display = Inr (state_reply (server accessx_display), line) \<and>
     count_list (line_words line) ''sticky'' = 1 \<and>
     (\<exists>ms rest. line_words line = ms @ ''sticky'' # rest \<and>
        set ms \<subseteq> set modifier_words \<and> set rest \<inter> set modifier_words = {}) \<and>
     count_list (line_words line) ''accessx'' = 1 \<and>
     last (line_words line) = ''accessx''"
proof -
  have "ctrls_status (server accessx_display) = Success"
    "sticky_enabled (enabled_ctrls (server accessx_display))"
    "accessx_enabled (enabled_ctrls (server accessx_display))"
    by (simp_all add: accessx_display_def spec_defs)
  with control_words_position [of accessx_display] show ?thesis
    by simp
qed

text \<open>
  C9. The line depends only on the bits 1, 1<<2, 1<<3 and 1<<6 of the latched and
  locked masks and on the sticky-keys and AccessX-keys bits of the enabled controls:
  two connections that agree on those bits (whatever their other modifier bits, other
  controls, remaining state fields, queues and later events) print the same line.
\<close>

theorem status_line_reads_table_bits_only:
  assumes "ctrls_status (server d1) = Success" and "ctrls_status (server d2) = Success"
    and "st_latched_mods (state_reply (server d1)) AND table_bits =
         st_latched_mods (state_reply (server d2)) AND table_bits"
    and "st_locked_mods (state_reply (server d1)) AND table_bits =
         st_locked_mods (state_reply (server d2)) AND table_bits"
    and "ucast (enabled_ctrls (server d1)) AND control_bits =
         ucast (enabled_ctrls (server d2)) AND control_bits"
  shows "\<exists>line. print_status d1 = Inr (state_reply (server d1), line) \<and>
                print_status d2 = Inr (state_reply (server d2), line)"
proof -
  let ?s1 = "state_reply (server d1)" and ?s2 = "state_reply (server d2)"
  have "entry_words ?s1 m = entry_words ?s2 m" if "m \<in> set table_entries" for m
    using assms(3,4) by (simp add: entry_words_def latched_set_table_bits [OF that]
        locked_set_table_bits [OF that])
  then have "map (entry_words ?s1) table_entries = map (entry_words ?s2) table_entries"
    by simp
  then have "concat (map (entry_words ?s1) table_entries) =
      concat (map (entry_words ?s2) table_entries)"
    by (rule arg_cong)
  moreover have "sticky_enabled (enabled_ctrls (server d1)) = sticky_enabled (enabled_ctrls (server d2))"
    "accessx_enabled (enabled_ctrls (server d1)) = accessx_enabled (enabled_ctrls (server d2))"
    using assms(5) by (simp_all add: enabled_control_bits)
  ultimately have "applicable_words ?s1 (enabled_ctrls (server d1)) =
      applicable_words ?s2 (enabled_ctrls (server d2))"
    by (simp add: applicable_words_def)
  then show ?thesis
    by (simp add: print_status_Success assms(1,2))
qed

theorem status_line_reads_table_bits_only_witness:
  "\<exists>line. print_status example_display = Inr (state_reply (server example_display), line) \<and>
     print_status other_bits_display = Inr (state_reply (server other_bits_display), line)"
  using status_line_reads_table_bits_only [of example_display other_bits_display]
  by (simp add: example_display_def example_server_def example_state_def other_bits_display_def
      table_bits_def control_bits_def spec_defs)

section \<open>The claims about the wait and the run\<close>

text \<open>
  C5. A modifier-state notification whose four fields (effective, base, latched and
  locked modifiers) equal those of the snapshot taken at the start of the pass is
  discarded: the wait goes on as if the event had not come. So when every event
  still to come is such a notification the wait never returns, and the main loop that
  printed its line prints nothing more.
\<close>

theorem unchanged_state_notify_suppressed:
  "(XNextEvent d = Some (e, d') \<and> unchanged_state_notify t st e \<longrightarrow>
      wait_loop t st d = wait_loop t st d') \<and>
   ((\<forall>e\<in>set (pending_events d). unchanged_state_notify t st e) \<longrightarrow>
      wait_loop t st d = None) \<and>
   (print_status d = Inr (st, line) \<and>
    (\<forall>e\<in>set (pending_events d). unchanged_state_notify t st e) \<longrightarrow>
      main_loop t d out = \<lparr>stdout = out @ line, stderr = [], result = Blocked\<rparr>)"
  by (simp add: wait_loop_unchanged wait_loop_blocked main_loop_blocked)

theorem unchanged_state_notify_suppressed_witness:
  "XNextEvent (example_display\<lparr>queue := [same_state_event, same_state_event]\<rparr>) =
     Some (same_state_event, example_display\<lparr>queue := [same_state_event]\<rparr>) \<and>
   unchanged_state_notify 85 example_state same_state_event \<and>
   wait_loop 85 example_state (example_display\<lparr>queue := [same_state_event, same_state_event]\<rparr>) =
     wait_loop 85 example_state (example_display\<lparr>queue := [same_state_event]\<rparr>) \<and>
   wait_loop 85 example_state (example_display\<lparr>queue := [same_state_event, same_state_event]\<rparr>) =
     None \<and>
   main_loop 85 (example_display\<lparr>queue := [same_state_event, same_state_event]\<rparr>) [] =
     \<lparr>stdout = ''shift CTRL alt sticky'' @ [CHR 0x0A], stderr = [], result = Blocked\<rparr>"
proof -
  let ?d = "example_display\<lparr>queue := [same_state_event, same_state_event]\<rparr>"
  let ?d' = "example_display\<lparr>queue := [same_state_event]\<rparr>"
  have next_ev: "XNextEvent ?d = Some (same_state_event, ?d')"
    by (simp add: XNextEvent_queue)
  have same: "unchanged_state_notify 85 example_state same_state_event"
    by (simp add: unchanged_state_notify_def same_state_event_def example_state_def)
  then have all: "\<forall>e\<in>set (pending_events ?d). unchanged_state_notify 85 example_state e"
    by (simp add: pending_events_def example_display_def)
  have "ctrls_status (server ?d) = Success"
    by (simp add: example_display_def example_server_def)
  then have line: "print_status ?d = Inr (example_state, ''shift CTRL alt sticky'' @ [CHR 0x0A])"
    by (simp add: print_status_line example_display_def status_line_example)
       (simp add: example_server_def)
  note suppressed = unchanged_state_notify_suppressed
    [of ?d same_state_event ?d' 85 example_state "''shift CTRL alt sticky'' @ [CHR 0x0A]" "[]"]
  from suppressed next_ev same
  have discarded: "wait_loop 85 example_state ?d = wait_loop 85 example_state ?d'"
    by blast
  from suppressed all have waiting: "wait_loop 85 example_state ?d = None"
    by blast
  from suppressed line all
  have "main_loop 85 ?d [] =
      \<lparr>stdout = ''shift CTRL alt sticky'' @ [CHR 0x0A], stderr = [], result = Blocked\<rparr>"
    by simp
  with next_ev same discarded waiting show ?thesis
    by blast
qed

text \<open>
  C6. A pass of the main loop has printed its line and waits. However many events
  the wait has discarded before, when it receives an event of the extension whose
  sub-type is a controls-change or AccessX-change notification, whatever the event's
  other fields, the wait returns to the main loop, the run goes on with the next
  pass, and that pass prints a new status line: standard output of the run holds the
  earlier output, the line of the waiting pass and then the line of the server's
  answers after the event. (A pass prints its line when its controls fetch succeeds.)
\<close>

theorem controls_notify_prints:
  assumes "print_status d = Inr (st, line)"
    and "receive d n = Some (es, d1)" and "\<forall>e\<in>set es. \<not> qualifying t st e"
    and "XNextEvent d1 = Some (e, d')" and "ev_type e = t"
    and "ev_xkb_type e = XkbControlsNotify \<or> ev_xkb_type e = XkbAccessXNotify"
    and "ctrls_status (server d') = Success"
  shows "wait_loop t st d = Some \<lparr>server = server d', queue = [], later = later d'\<rparr> \<and>
    main_loop t d out =
      main_loop t \<lparr>server = server d', queue = [], later = later d'\<rparr> (out @ line) \<and>
    print_status \<lparr>server = server d', queue = [], later = later d'\<rparr> =
      Inr (state_reply (server d'), status_line (server d')) \<and>
    (\<exists>rest. stdout (main_loop t d out) = out @ line @ status_line (server d') @ rest)"
  using run_after_event(1-4) [OF assms(1-4) controls_notify_qualifying [OF assms(5,6)] assms(7)]
  by blast

theorem controls_notify_prints_witness:
  "print_status skip_display = Inr (example_state, ''shift CTRL alt sticky'' @ [CHR 0x0A]) \<and>
   receive skip_display 1 =
     Some ([same_state_event],
       \<lparr>server = example_server, queue = [controls_event], later = []\<rparr>) \<and>
   \<not> qualifying 85 example_state same_state_event \<and>
   XNextEvent \<lparr>server = example_server, queue = [controls_event], later = []\<rparr> =
     Some (controls_event, example_display) \<and>
   ev_type controls_event = 85 \<and>
   ev_xkb_type controls_event = XkbControlsNotify \<and>
   ev_mods controls_event = ucast (st_mods example_state) \<and>
   ev_base_mods controls_event = ucast (st_base_mods example_state) \<and>
   ev_latched_mods controls_event = ucast (st_latched_mods example_state) \<and>
   ev_locked_mods controls_event = ucast (st_locked_mods example_state) \<and>
   ctrls_status (server example_display) = Success \<and>
   wait_loop 85 example_state skip_display = Some example_display \<and>
   main_loop 85 skip_display [] =
     main_loop 85 example_display (''shift CTRL alt sticky'' @ [CHR 0x0A]) \<and>
   (\<exists>rest. stdout (main_loop 85 skip_display []) =
      ''shift CTRL alt sticky'' @ [CHR 0x0A] @ ''shift CTRL alt sticky'' @ [CHR 0x0A] @ rest)"
proof -
  let ?d1 = "\<lparr>server = example_server, queue = [controls_event], later = []\<rparr>"
  have pass: "print_status skip_display = Inr (example_state, ''shift CTRL alt sticky'' @ [CHR 0x0A])"
    by code_simp
  have skipped: "receive skip_display 1 = Some ([same_state_event], ?d1)"
    by code_simp
  have discarded: "\<not> qualifying 85 example_state same_state_event"
    by code_simp
  have next_ev: "XNextEvent ?d1 = Some (controls_event, example_display)"
    by code_simp
  have ev: "ev_type controls_event = 85" "ev_xkb_type controls_event = XkbControlsNotify"
    by (simp_all add: controls_event_def)
  have same: "ev_mods controls_event = ucast (st_mods example_state)"
    "ev_base_mods controls_event = ucast (st_base_mods example_state)"
    "ev_latched_mods controls_event = ucast (st_latched_mods example_state)"
    "ev_locked_mods controls_event = ucast (st_locked_mods example_state)"
    by (simp_all add: controls_event_def example_state_def)
  have ok: "ctrls_status (server example_display) = Success"
    by (simp add: example_display_def example_server_def)
  have eqs: "\<lparr>server = server example_display, queue = [], later = later example_display\<rparr> =
      example_display"
    "status_line (server example_display) = ''shift CTRL alt sticky'' @ [CHR 0x0A]"
    by (simp_all add: example_display_def status_line_example)
  from discarded have all: "\<forall>e\<in>set [same_state_event]. \<not> qualifying 85 example_state e"
    by simp
  note prints = controls_notify_prints [OF pass skipped all next_ev ev(1) _ ok, of "[]"]
  from prints [THEN conjunct1] ev(2) eqs
  have returns: "wait_loop 85 example_state skip_display = Some example_display"
    by simp
  from prints [THEN conjunct2, THEN conjunct1] ev(2) eqs
  have run: "main_loop 85 skip_display [] =
      main_loop 85 example_display (''shift CTRL alt sticky'' @ [CHR 0x0A])"
    by simp
  from prints [THEN conjunct2, THEN conjunct2, THEN conjunct2] ev(2) eqs
  have "\<exists>rest. stdout (main_loop 85 skip_display []) =
      ''shift CTRL alt sticky'' @ [CHR 0x0A] @ ''shift CTRL alt sticky'' @ [CHR 0x0A] @ rest"
    by simp
  with pass skipped discarded next_ev ev same ok returns run show ?thesis by blast
qed

text \<open>
  C7. A pass of the main loop has printed its line and waits. When the wait receives
  a qualifying event, the events queued behind it are drained without being looked
  at: the wait returns with the queue empty, and the run goes on from the server's
  answers and the later events alone, whatever the queue held. The next pass prints
  the line of the server's answers after the drain, which holds one newline; and when
  no event that arrives later qualifies, that one line is all the run writes after
  the line of the waiting pass. (A pass prints its line when its controls fetch
  succeeds.)
\<close>

theorem burst_coalesced:
  assumes "print_status d = Inr (st, line)"
    and "receive d n = Some (es, d1)" and "\<forall>e\<in>set es. \<not> qualifying t st e"
    and "XNextEvent d1 = Some (e, d')" and "qualifying t st e"
    and "ctrls_status (server d') = Success"
  shows "wait_loop t st d = Some \<lparr>server = server d', queue = [], later = later d'\<rparr> \<and>
    main_loop t d out =
      main_loop t \<lparr>server = server d', queue = [], later = later d'\<rparr> (out @ line) \<and>
    print_status \<lparr>server = server d', queue = [], later = later d'\<rparr> =
      Inr (state_reply (server d'), status_line (server d')) \<and>
    count_list (status_line (server d')) (CHR 0x0A) = 1 \<and>
    (\<exists>rest. stdout (main_loop t d out) = out @ line @ status_line (server d') @ rest) \<and>
    ((\<forall>e\<in>set (concat (map snd (later d'))). \<not> qualifying t (state_reply (server d')) e) \<longrightarrow>
       main_loop t d out =
         \<lparr>stdout = out @ line @ status_line (server d'), stderr = [], result = Blocked\<rparr>)"
  using run_after_event [OF assms] status_line_one_newline [of "server d'"]
  by blast

theorem burst_coalesced_witness:
  "print_status burst_display = Inr (example_state, ''shift CTRL alt sticky'' @ [CHR 0x0A]) \<and>
   receive burst_display 0 = Some ([], burst_display) \<and>
   XNextEvent burst_display =
     Some (changed_state_event,
       \<lparr>server = idle_server, queue = [controls_event, released_event], later = []\<rparr>) \<and>
   qualifying 85 example_state changed_state_event \<and>
   ctrls_status idle_server = Success \<and>
   wait_loop 85 example_state burst_display = Some idle_display \<and>
   print_status idle_display = Inr (state_reply idle_server, [CHR 0x0A]) \<and>
   main_loop 85 burst_display [] =
     \<lparr>stdout = ''shift CTRL alt sticky'' @ [CHR 0x0A] @ [CHR 0x0A], stderr = [],
      result = Blocked\<rparr>"
proof -
  let ?d' = "\<lparr>server = idle_server, queue = [controls_event, released_event], later = []\<rparr>"
  have pass: "print_status burst_display = Inr (example_state, ''shift CTRL alt sticky'' @ [CHR 0x0A])"
    by code_simp
  have skipped: "receive burst_display 0 = Some ([], burst_display)"
    by simp
  have next_ev: "XNextEvent burst_display = Some (changed_state_event, ?d')"
    by code_simp
  have qual: "qualifying 85 example_state changed_state_event"
    by code_simp
  have ok: "ctrls_status (server ?d') = Success"
    by (simp add: idle_server_def idle_display_def)
  have eqs: "\<lparr>server = server ?d', queue = [], later = later ?d'\<rparr> = idle_display"
    "server ?d' = idle_server" "later ?d' = []" "status_line idle_server = [CHR 0x0A]"
    by (simp_all add: idle_server_def idle_display_def status_line_def applicable_words_def
        table_entries_eq entry_words_def join_words_def spec_defs)
  note coalesced = burst_coalesced [OF pass skipped _ next_ev qual ok, of "[]"]
  from coalesced eqs have returns: "wait_loop 85 example_state burst_display = Some idle_display"
    by simp
  from coalesced [THEN conjunct2, THEN conjunct2, THEN conjunct1] eqs
  have line: "print_status idle_display = Inr (state_reply idle_server, [CHR 0x0A])"
    by simp
  from coalesced [THEN conjunct2, THEN conjunct2, THEN conjunct2, THEN conjunct2, THEN conjunct2]
    eqs
  have "main_loop 85 burst_display [] =
     \<lparr>stdout = ''shift CTRL alt sticky'' @ [CHR 0x0A] @ [CHR 0x0A], stderr = [],
      result = Blocked\<rparr>"
    by simp
  with pass skipped next_ev qual ok eqs(2) returns line show ?thesis by simp
qed

text \<open>
  C8 (the code at the failing input). When the first controls fetch fails with 11,
  the run exits with status 1 and standard error holds
  \<open>XkbGetControls() returned 11\<close> with no newline at its end, where the three
  set-up failures each write a line ended by a newline (\<open>main_setup_failures\<close>).
  Standard output holds the modifier words printed before the fetch.
\<close>

theorem controls_failure_diagnostic_unterminated:
  "main controls_failure_env =
     \<lparr>stdout = ''shift CTRL alt'', stderr = ''XkbGetControls() returned 11'',
      result = Exit 1\<rparr> \<and>
   CHR 0x0A \<notin> set (stderr (main controls_failure_env))"
  by code_simp

text \<open>
  C10. The status that \<open>XkbGetState\<close> returns is never looked at: a run is the same
  whatever status the state fetches return, and a pass renders the struct whatever
  that status is. The status of \<open>XkbGetControls\<close> is looked at on every pass: a pass
  whose controls fetch fails writes that status to standard error and exits with
  status 1, whatever the status of the state fetch. And a run of the main loop ends
  in no other way: it either waits for ever with standard error empty, or some
  controls fetch failed and it exits with status 1 after writing that fetch's status.
\<close>

theorem state_fetch_status_unchecked:
  "main_loop t (state_fetch_status v d) out = main_loop t d out \<and>
   (ctrls_status (server d) = Success \<longrightarrow>
      print_status (state_fetch_status v d) =
        Inr (state_reply (server d), status_line (server d))) \<and>
   (ctrls_status (server d) \<noteq> Success \<longrightarrow>
      main_loop t (state_fetch_status v d) out =
        \<lparr>stdout = out @ join_words (concat (map (entry_words (state_reply (server d))) table_entries)),
         stderr = ''XkbGetControls() returned '' @ fmt_d (ctrls_status (server d)),
         result = Exit 1\<rparr>) \<and>
   (result (main_loop t d out) = Blocked \<and> stderr (main_loop t d out) = [] \<or>
    (\<exists>s\<in>set (servers d). ctrls_status s \<noteq> Success \<and>
       result (main_loop t d out) = Exit 1 \<and>
       stderr (main_loop t d out) = ''XkbGetControls() returned '' @ fmt_d (ctrls_status s)))"
  using main_loop_ends [of t d out]
  by (simp add: main_loop_state_fetch_status print_status_state_fetch_status print_status_line
      main_loop_failure)

theorem state_fetch_status_unchecked_witness:
  "state_status (server (state_fetch_status 8 example_display)) \<noteq> Success \<and>
   print_status (state_fetch_status 8 example_display) =
     Inr (example_state, ''shift CTRL alt sticky'' @ [CHR 0x0A]) \<and>
   main_loop 85 (state_fetch_status 8 example_display) [] =
     \<lparr>stdout = ''shift CTRL alt sticky'' @ [CHR 0x0A], stderr = [], result = Blocked\<rparr> \<and>
   ctrls_status failing_server \<noteq> Success \<and>
   main_loop 85 (state_fetch_status 0 \<lparr>server = failing_server, queue = [], later = []\<rparr>) [] =
     \<lparr>stdout = ''shift CTRL alt'', stderr = ''XkbGetControls() returned 11'', result = Exit 1\<rparr>"
proof -
  let ?f = "\<lparr>server = failing_server, queue = [], later = []\<rparr>"
  have failed: "state_status (server (state_fetch_status 8 example_display)) \<noteq> Success"
    by (simp add: state_fetch_status_def Success_def)
  have ok: "ctrls_status (server example_display) = Success"
    "state_reply (server example_display) = example_state"
    by (simp_all add: example_display_def example_server_def)
  have shown: "status_line (server example_display) = ''shift CTRL alt sticky'' @ [CHR 0x0A]"
    by (simp add: example_display_def status_line_example)
  have run: "main_loop 85 example_display [] =
      \<lparr>stdout = ''shift CTRL alt sticky'' @ [CHR 0x0A], stderr = [], result = Blocked\<rparr>"
    by code_simp
  have bad: "ctrls_status (server ?f) \<noteq> Success" "ctrls_status failing_server \<noteq> Success"
    by (simp_all add: failing_server_def Success_def)
  have words: "join_words (concat (map (entry_words (state_reply (server ?f))) table_entries)) =
      ''shift CTRL alt''"
    "fmt_d (ctrls_status (server ?f)) = ''11''"
    by code_simp+
  note ignored = state_fetch_status_unchecked [of 85 8 example_display "[]"]
  from ignored [THEN conjunct1] run
  have same_run: "main_loop 85 (state_fetch_status 8 example_display) [] =
     \<lparr>stdout = ''shift CTRL alt sticky'' @ [CHR 0x0A], stderr = [], result = Blocked\<rparr>"
    by simp
  from ignored [THEN conjunct2, THEN conjunct1] ok shown
  have rendered: "print_status (state_fetch_status 8 example_display) =
      Inr (example_state, ''shift CTRL alt sticky'' @ [CHR 0x0A])"
    by simp
  from state_fetch_status_unchecked [of 85 0 ?f "[]", THEN conjunct2, THEN conjunct2, THEN conjunct1]
    bad(1) words
  have "main_loop 85 (state_fetch_status 0 ?f) [] =
     \<lparr>stdout = ''shift CTRL alt'', stderr = ''XkbGetControls() returned 11'', result = Exit 1\<rparr>"
    by simp
  with failed same_run rendered bad(2) show ?thesis by blast
qed

end
